theory Spec2Isabelle
  imports Complex_Main "HOL-Library.Log_Nat" "HOL-Library.Multiset"
begin

section \<open>JavaScript values used by the watcher\<close>

subsection \<open>Strings\<close>

text \<open>
  A JavaScript string is a sequence of code units. The strings of this program are
  hexadecimal data, addresses and selectors, so a code unit is modelled by an 8-bit
  \<^typ>\<open>char\<close> (the code points below 256) and a string by \<^typ>\<open>string\<close>.
  \<open>String.prototype.toLowerCase\<close> maps each code unit on its own in that range:
  \<open>A\<close>..\<open>Z\<close> and the upper-case letters of Latin-1 (\<open>0xC0\<close>..\<open>0xDE\<close> without the
  multiplication sign \<open>0xD7\<close>) move up by 32, every other code unit stays.
\<close>

definition is_upper :: "nat \<Rightarrow> bool" where
  "is_upper n = ((65 \<le> n \<and> n \<le> 90) \<or> (192 \<le> n \<and> n \<le> 222 \<and> n \<noteq> 215))"

definition lower_char :: "char \<Rightarrow> char" where
  "lower_char c =
     (let n = (of_char c :: nat)
      in if is_upper n then char_of (n + 32) else c)"

definition toLowerCase :: "string \<Rightarrow> string" where
  "toLowerCase s = map lower_char s"

subsection \<open>Numbers\<close>

text \<open>
  A JavaScript \<open>number\<close> is an IEEE 754 binary64 value. \<open>Fin q\<close> is the finite double
  whose exact value is the rational \<open>q\<close>; the two zeros are one value \<open>Fin 0\<close>, which
  no operation of this program tells apart (\<open>-0\<close> is falsy like \<open>+0\<close>, compares like it
  and the program never divides by a zero).
\<close>

datatype number = NaN | PInf | NInf | Fin rat

text \<open>Rounding to the nearest integer, ties to the even one.\<close>

definition round_half_even :: "rat \<Rightarrow> int" where
  "round_half_even x =
     (let f = \<lfloor>x\<rfloor>; d = x - of_int f
      in if d < 1 / 2 then f
         else if 1 / 2 < d then f + 1
         else if even f then f else f + 1)"

text \<open>The binary exponent \<open>e\<close> of a positive rational: \<open>2 powi e \<le> q < 2 powi (e + 1)\<close>.\<close>

definition binexp :: "rat \<Rightarrow> int" where
  "binexp q =
     (if 1 \<le> q then bitlen \<lfloor>q\<rfloor> - 1
      else - bitlen (\<lceil>1 / q\<rceil> - 1))"

text \<open>
  The unit in the last place of the binade of a positive rational: 53 significant bits,
  and the fixed spacing \<open>2 powi (-1074)\<close> of the subnormal range below \<open>2 powi (-1022)\<close>.
\<close>

definition ulp :: "rat \<Rightarrow> rat" where
  "ulp q = 2 powi (max (binexp q) (- 1022) - 52)"

definition round_pos :: "rat \<Rightarrow> rat" where
  "round_pos q = of_int (round_half_even (q / ulp q)) * ulp q"

text \<open>
  The double of a real value (IEEE 754 roundTiesToEven, as ECMAScript prescribes):
  a magnitude that rounds to \<open>2 ^ 1024\<close> or more, a value of binary exponent 1024 at
  least, becomes an infinity.
\<close>

definition to_double :: "rat \<Rightarrow> number" where
  "to_double q =
     (if q = 0 then Fin 0
      else let r = round_pos \<bar>q\<bar>
           in if 1024 \<le> binexp r then (if 0 < q then PInf else NInf)
              else Fin (if 0 < q then r else - r))"

text \<open>\<open>Number(b)\<close> for a BigInt \<open>b\<close>.\<close>

definition Number :: "int \<Rightarrow> number" where
  "Number b = to_double (of_int b)"

text \<open>The operator \<open>/\<close> on numbers.\<close>

fun num_div :: "number \<Rightarrow> number \<Rightarrow> number" where
  "num_div NaN _ = NaN"
| "num_div _ NaN = NaN"
| "num_div PInf (Fin y) = (if 0 \<le> y then PInf else NInf)"
| "num_div NInf (Fin y) = (if 0 \<le> y then NInf else PInf)"
| "num_div (Fin x) PInf = Fin 0"
| "num_div (Fin x) NInf = Fin 0"
| "num_div (Fin x) (Fin y) =
     (if y = 0 then (if x = 0 then NaN else if 0 < x then PInf else NInf)
      else to_double (x / y))"
| "num_div _ _ = NaN"

text \<open>The operators \<open><\<close> and \<open><=\<close> on numbers: false as soon as one side is \<open>NaN\<close>.\<close>

fun num_lt :: "number \<Rightarrow> number \<Rightarrow> bool" where
  "num_lt (Fin x) (Fin y) = (x < y)"
| "num_lt (Fin x) PInf = True"
| "num_lt NInf (Fin y) = True"
| "num_lt NInf PInf = True"
| "num_lt _ _ = False"

fun num_le :: "number \<Rightarrow> number \<Rightarrow> bool" where
  "num_le (Fin x) (Fin y) = (x \<le> y)"
| "num_le (Fin x) PInf = True"
| "num_le NInf (Fin y) = True"
| "num_le NInf NInf = True"
| "num_le NInf PInf = True"
| "num_le PInf PInf = True"
| "num_le _ _ = False"

text \<open>Truthiness of a number: \<open>NaN\<close> and zero are falsy.\<close>

fun truthy :: "number \<Rightarrow> bool" where
  "truthy NaN = False"
| "truthy (Fin q) = (q \<noteq> 0)"
| "truthy _ = True"

text \<open>\<open>Math.floor\<close>.\<close>

fun Math_floor :: "number \<Rightarrow> number" where
  "Math_floor (Fin q) = Fin (of_int \<lfloor>q\<rfloor>)"
| "Math_floor x = x"

subsection \<open>Numbers as strings\<close>

text \<open>
  A template literal turns a number into a string with \<open>Number::toString\<close> (radix 10):
  the shortest decimal \<open>s * 10 powi (n - k)\<close>, \<open>s\<close> of \<open>k\<close> digits, that rounds to the
  double, printed as digits for \<open>-5 \<le> n \<le> 21\<close> and with an exponent otherwise.
\<close>

definition digit_char :: "int \<Rightarrow> char" where
  "digit_char d = char_of (48 + d)"

function dec_digits :: "int \<Rightarrow> string" where
  "dec_digits n =
     (if n < 10 then [digit_char n] else dec_digits (n div 10) @ [digit_char (n mod 10)])"
  by pat_completeness auto
termination
  by (relation "measure nat") auto

text \<open>The decimal exponent \<open>n\<close> of a positive rational: \<open>10 powi (n - 1) \<le> q < 10 powi n\<close>.\<close>

definition decexp :: "rat \<Rightarrow> int" where
  "decexp q =
     (if 1 \<le> q then int (length (dec_digits \<lfloor>q\<rfloor>))
      else 1 - int (length (dec_digits (\<lceil>1 / q\<rceil> - 1))))"

text \<open>
  The two decimals of \<open>k\<close> digits around \<open>q\<close>, the closer one first (the even one on a
  tie); \<open>digit_candidates\<close> keeps those that round to \<open>q\<close>.
\<close>

definition neighbours :: "rat \<Rightarrow> int \<Rightarrow> int \<Rightarrow> int \<times> int" where
  "neighbours q n k =
     (let x = q / 10 powi (n - k); lo = \<lfloor>x\<rfloor>; hi = \<lceil>x\<rceil>
      in if x - of_int lo < of_int hi - x then (lo, hi)
         else if of_int hi - x < x - of_int lo then (hi, lo)
         else if even lo then (lo, hi) else (hi, lo))"

definition digit_candidates :: "rat \<Rightarrow> int \<Rightarrow> int \<Rightarrow> int list" where
  "digit_candidates q n k =
     (let (near, far) = neighbours q n k
      in filter (\<lambda>s. to_double (of_int s * 10 powi (n - k)) = Fin q) [near, far])"

text \<open>
  The search for the least \<open>k\<close>, from \<open>k\<close> upwards. Seventeen digits identify every
  double, so at \<open>k = 17\<close> the closest decimal is taken as it is.
\<close>

function shortest :: "rat \<Rightarrow> int \<Rightarrow> int \<Rightarrow> int \<times> int" where
  "shortest q n k =
     (if 17 \<le> k then (fst (neighbours q n k), k)
      else case digit_candidates q n k of
             s # _ \<Rightarrow> (s, k)
           | [] \<Rightarrow> shortest q n (k + 1))"
  by pat_completeness auto
termination
  by (relation "measure (\<lambda>(q, n, k). nat (17 - k))") auto

definition pos_to_string :: "rat \<Rightarrow> string" where
  "pos_to_string q =
     (let n0 = decexp q;
          (s0, k) = shortest q n0 1;
          (s, n) = (if s0 = 10 ^ nat k then (s0 div 10, n0 + 1) else (s0, n0));
          ds = dec_digits s
      in if - 5 \<le> n \<and> n \<le> 21 then
           (if k \<le> n then ds @ replicate (nat (n - k)) (CHR ''0'')
            else if 0 < n then take (nat n) ds @ ''.'' @ drop (nat n) ds
            else ''0.'' @ replicate (nat (- n)) (CHR ''0'') @ ds)
         else
           (let ex = (if n < 0 then ''-'' else ''+'') @ dec_digits \<bar>n - 1\<bar>
            in if k = 1 then ds @ ''e'' @ ex
               else take 1 ds @ ''.'' @ drop 1 ds @ ''e'' @ ex))"

fun number_to_string :: "number \<Rightarrow> string" where
  "number_to_string NaN = ''NaN''"
| "number_to_string PInf = ''Infinity''"
| "number_to_string NInf = ''-Infinity''"
| "number_to_string (Fin q) =
     (if q = 0 then ''0''
      else if q < 0 then ''-'' @ pos_to_string (- q)
      else pos_to_string q)"

section \<open>The watcher\<close>

subsection \<open>Data\<close>

text \<open>The operator \<open>??\<close>: the right operand stands in for \<open>null\<close> and \<open>undefined\<close>.\<close>

fun nullish :: "'a option \<Rightarrow> 'a \<Rightarrow> 'a" where
  "nullish None d = d"
| "nullish (Some v) d = v"

text \<open>The type \<open>Rule\<close>; an optional property that is left out is \<open>None\<close>.\<close>

record Rule =
  minEth :: "number option"
  allowSelectors :: "string list option"
  denySelectors :: "string list option"
  watchRecipients :: "string list option"

definition RULES :: Rule where
  "RULES = \<lparr> minEth = Some (Fin (1 / 2)),
             allowSelectors = Some [],
             denySelectors = Some [''0x095ea7b3''],
             watchRecipients = Some [] \<rparr>"

text \<open>
  The properties of a \<open>TransactionResponse\<close> that the program reads, each under the
  name \<open>tx_\<close> and its own. Those the program guards with \<open>??\<close> are optional here.
\<close>

record TransactionResponse =
  tx_hash :: string
  tx_from :: "string option"
  tx_to :: "string option"
  tx_value :: "int option"
  tx_data :: "string option"
  tx_nonce :: number

record verdict =
  ok :: bool
  reason :: "string list"

subsection \<open>Selector and amount\<close>

definition selectorOf :: "string \<Rightarrow> string" where
  "selectorOf input =
     (if input = [] \<or> length input < 10 then ''0x00000000''
      else toLowerCase (take 10 input))"

text \<open>The literal \<open>1e18\<close> is the double \<open>10 ^ 18\<close>.\<close>

definition weiToEth :: "int \<Rightarrow> number" where
  "weiToEth wei = num_div (Number wei) (Fin (10 ^ 18))"

subsection \<open>The rule matcher\<close>

text \<open>
  The four conditional \<open>push\<close> statements of \<open>matchRules\<close>, each a function from the
  reasons so far to the reasons after it; \<open>sel\<close> and \<open>eth\<close> are the two constants
  computed before them.
\<close>

definition check_value :: "number \<Rightarrow> Rule \<Rightarrow> string list \<Rightarrow> string list" where
  "check_value eth rules reasons =
     (case minEth rules of
        None \<Rightarrow> reasons
      | Some m \<Rightarrow>
          if truthy m \<and> num_lt eth m then reasons @ [''value<'' @ number_to_string m]
          else reasons)"

definition check_allow :: "string \<Rightarrow> Rule \<Rightarrow> string list \<Rightarrow> string list" where
  "check_allow sel rules reasons =
     (case allowSelectors rules of
        None \<Rightarrow> reasons
      | Some allow \<Rightarrow>
          if length allow \<noteq> 0 \<and> sel \<notin> set allow
          then reasons @ [''!allowed:'' @ sel]
          else reasons)"

definition check_deny :: "string \<Rightarrow> Rule \<Rightarrow> string list \<Rightarrow> string list" where
  "check_deny sel rules reasons =
     (case denySelectors rules of
        None \<Rightarrow> reasons
      | Some deny \<Rightarrow>
          if sel \<in> set deny then reasons @ [''denied:'' @ sel]
          else reasons)"

definition check_watch :: "TransactionResponse \<Rightarrow> Rule \<Rightarrow> string list \<Rightarrow> string list" where
  "check_watch tx rules reasons =
     (case watchRecipients rules of
        None \<Rightarrow> reasons
      | Some watch \<Rightarrow>
          if length watch \<noteq> 0 \<and> toLowerCase (nullish (tx_to tx) []) \<notin> set watch
          then reasons @ [''!watched:to'']
          else reasons)"

definition matchRules :: "TransactionResponse \<Rightarrow> Rule \<Rightarrow> verdict" where
  "matchRules tx rules =
     (let reasons0 = [];
          sel = selectorOf (nullish (tx_data tx) ''0x'');
          eth = weiToEth (nullish (tx_value tx) 0);
          reasons1 = check_value eth rules reasons0;
          reasons2 = check_allow sel rules reasons1;
          reasons3 = check_deny sel rules reasons2;
          reasons4 = check_watch tx rules reasons3
      in \<lparr> ok = (length reasons4 = 0), reason = reasons4 \<rparr>)"

text \<open>
  The same four statements run in any given order, to compare the verdicts.
\<close>

datatype check = CheckValue | CheckAllow | CheckDeny | CheckWatch

fun run_check :: "TransactionResponse \<Rightarrow> Rule \<Rightarrow> check \<Rightarrow> string list \<Rightarrow> string list" where
  "run_check tx rules CheckValue reasons =
     check_value (weiToEth (nullish (tx_value tx) 0)) rules reasons"
| "run_check tx rules CheckAllow reasons =
     check_allow (selectorOf (nullish (tx_data tx) ''0x'')) rules reasons"
| "run_check tx rules CheckDeny reasons =
     check_deny (selectorOf (nullish (tx_data tx) ''0x'')) rules reasons"
| "run_check tx rules CheckWatch reasons = check_watch tx rules reasons"

definition matchRulesIn :: "check list \<Rightarrow> TransactionResponse \<Rightarrow> Rule \<Rightarrow> verdict" where
  "matchRulesIn cs tx rules =
     (let reasons = fold (run_check tx rules) cs []
      in \<lparr> ok = (length reasons = 0), reason = reasons \<rparr>)"

subsection \<open>The alert\<close>

text \<open>
  The handler of a pending hash, from the fetched transaction on: \<open>getTransaction\<close>
  throws, returns \<open>null\<close> or returns a transaction. The result is the object literal
  handed to \<open>JSON.stringify\<close>, its properties in the order written, each a string or a
  number; \<open>None\<close> when nothing is printed. \<open>now\<close> is the value of \<open>Date.now()\<close>.
\<close>

datatype json = JString string | JNumber number

datatype fetched = Thrown | Null | Found TransactionResponse

definition on_pending :: "number \<Rightarrow> fetched \<Rightarrow> (string \<times> json) list option" where
  "on_pending now f =
     (case f of
        Thrown \<Rightarrow> None
      | Null \<Rightarrow> None
      | Found tx \<Rightarrow>
          if \<not> ok (matchRules tx RULES) then None
          else Some
            [(''type'', JString ''mempool_alert''),
             (''hash'', JString (tx_hash tx)),
             (''from'', JString (toLowerCase (nullish (tx_from tx) []))),
             (''to'', JString (toLowerCase (nullish (tx_to tx) []))),
             (''eth'', JNumber (weiToEth (nullish (tx_value tx) 0))),
             (''selector'', JString (selectorOf (nullish (tx_data tx) ''0x''))),
             (''nonce'', JNumber (tx_nonce tx)),
             (''ts'', JNumber (Math_floor (num_div now (Fin 1000))))])"

subsection \<open>Inputs of the scenarios\<close>

text \<open>
  The rule set \<open>{minEth: 0.5, denySelectors: ["0x095ea7b3"]}\<close>, the rule set
  \<open>{watchRecipients: ["0xaaa"]}\<close>, and a transfer of one ether with no data and no
  recipient.
\<close>

definition scenario_rules :: Rule where
  "scenario_rules = \<lparr> minEth = Some (Fin (1 / 2)), allowSelectors = None,
      denySelectors = Some [''0x095ea7b3''], watchRecipients = None \<rparr>"

definition watch_rules :: Rule where
  "watch_rules = \<lparr> minEth = None, allowSelectors = None, denySelectors = None,
      watchRecipients = Some [''0xaaa''] \<rparr>"

text \<open>
  A rule set with all four rules, and a transaction that fails each of them.
\<close>

definition strict_rules :: Rule where
  "strict_rules = \<lparr> minEth = Some (Fin (1 / 2)), allowSelectors = Some [''0xa9059cbb''],
      denySelectors = Some [''0x095ea7b3''], watchRecipients = Some [''0xaaa''] \<rparr>"

definition failing_tx :: TransactionResponse where
  "failing_tx = \<lparr> tx_hash = ''0x1'', tx_from = Some ''0xdef'', tx_to = Some ''0xBBB'',
      tx_value = Some (10 ^ 17), tx_data = Some ''0x095ea7b300'', tx_nonce = Fin 5 \<rparr>"

definition sample_tx :: TransactionResponse where
  "sample_tx = \<lparr> tx_hash = ''0x1'', tx_from = Some ''0xDEF'', tx_to = None,
      tx_value = Some (10 ^ 18), tx_data = Some ''0x'', tx_nonce = Fin 5 \<rparr>"

section \<open>Properties of selector extraction\<close>

lemma lower_char_idem: "lower_char (lower_char c) = lower_char c"
proof (cases "is_upper (of_char c)")
  case False
  then show ?thesis by (simp only: lower_char_def Let_def if_False)
next
  case True
  let ?n = "of_char c :: nat"
  have eq: "lower_char c = char_of (?n + 32)"
    using True by (simp only: lower_char_def Let_def if_True)
  have "(of_char (char_of (?n + 32) :: char) :: nat) = (?n + 32) mod 256"
    by (simp only: of_char_of)
  moreover have "?n + 32 < 256"
    using True unfolding is_upper_def by linarith
  ultimately have v: "(of_char (lower_char c) :: nat) = ?n + 32"
    by (simp only: eq mod_less)
  have "\<not> is_upper (?n + 32)"
    using True unfolding is_upper_def by linarith
  then have "\<not> is_upper (of_char (lower_char c))"
    by (simp add: v)
  then show ?thesis
    by (simp only: lower_char_def [of "lower_char c"] Let_def if_False)
qed

lemma toLowerCase_idem: "toLowerCase (toLowerCase s) = toLowerCase s"
  by (simp add: toLowerCase_def lower_char_idem)

lemma selectorOf_short: "length input < 10 \<Longrightarrow> selectorOf input = ''0x00000000''"
  by (simp add: selectorOf_def)

lemma selectorOf_long: "10 \<le> length input \<Longrightarrow> selectorOf input = toLowerCase (take 10 input)"
  by (auto simp add: selectorOf_def)

text \<open>
  Claim C2. Selector extraction returns the sentinel \<open>0x00000000\<close> when the data is
  absent (the caller then passes \<open>0x\<close>), empty or shorter than 10 characters. For a
  string of at least 10 characters it returns the first 10 characters lowercased: a
  string of length 10 that lowercasing leaves as it is, and the same for two inputs
  that differ only in the case of their letters.
\<close>

theorem selectorOf_sentinel_or_prefix:
  "selectorOf (nullish None ''0x'') = ''0x00000000'' \<and>
   (length input < 10 \<longrightarrow> selectorOf input = ''0x00000000'') \<and>
   (10 \<le> length input \<longrightarrow>
      selectorOf input = toLowerCase (take 10 input) \<and>
      length (selectorOf input) = 10 \<and>
      toLowerCase (selectorOf input) = selectorOf input \<and>
      (\<forall>other. toLowerCase other = toLowerCase input \<longrightarrow>
         selectorOf other = selectorOf input))"
proof (intro conjI impI allI)
  show "selectorOf (nullish None ''0x'') = ''0x00000000''"
    by (simp add: selectorOf_def)
  show "length input < 10 \<Longrightarrow> selectorOf input = ''0x00000000''"
    by (rule selectorOf_short)
next
  assume len: "10 \<le> length input"
  then show eq: "selectorOf input = toLowerCase (take 10 input)"
    by (rule selectorOf_long)
  from len show "length (selectorOf input) = 10"
    by (simp add: eq toLowerCase_def)
  show "toLowerCase (selectorOf input) = selectorOf input"
    by (simp only: eq toLowerCase_idem)
  fix other assume same: "toLowerCase other = toLowerCase input"
  then have "length (map lower_char other) = length (map lower_char input)"
    by (simp only: toLowerCase_def)
  then have "length other = length input"
    by (simp only: length_map)
  with len have "selectorOf other = toLowerCase (take 10 other)"
    by (simp add: selectorOf_long)
  also have "\<dots> = take 10 (toLowerCase other)"
    by (simp only: toLowerCase_def take_map)
  also have "\<dots> = take 10 (toLowerCase input)"
    by (simp only: same)
  also have "\<dots> = toLowerCase (take 10 input)"
    by (simp only: toLowerCase_def take_map)
  finally show "selectorOf other = selectorOf input"
    by (simp only: eq)
qed

theorem selectorOf_sentinel_or_prefix_witness:
  "selectorOf ''0x'' = ''0x00000000'' \<and> selectorOf ''0xA9059CBB00ff'' = ''0xa9059cbb'' \<and>
   selectorOf ''0xa9059cBB00FF'' = selectorOf ''0xA9059CBB00ff''"
proof -
  have short: "length ''0x'' < 10" by simp
  have long: "10 \<le> length ''0xA9059CBB00ff''" by simp
  have low: "toLowerCase (take 10 ''0xA9059CBB00ff'') = ''0xa9059cbb''"
    by code_simp
  have same: "toLowerCase ''0xa9059cBB00FF'' = toLowerCase ''0xA9059CBB00ff''"
    by code_simp
  have a: "selectorOf ''0x'' = ''0x00000000''"
    by (rule selectorOf_sentinel_or_prefix [of "''0x''", THEN conjunct2, THEN conjunct1,
          THEN mp, OF short])
  note at_long = selectorOf_sentinel_or_prefix [of "''0xA9059CBB00ff''", THEN conjunct2,
      THEN conjunct2, THEN mp, OF long]
  have b: "selectorOf ''0xA9059CBB00ff'' = toLowerCase (take 10 ''0xA9059CBB00ff'')"
    by (rule at_long [THEN conjunct1])
  have c: "selectorOf ''0xa9059cBB00FF'' = selectorOf ''0xA9059CBB00ff''"
    by (rule at_long [THEN conjunct2, THEN conjunct2, THEN conjunct2, THEN spec, THEN mp,
          OF same])
  show ?thesis
    by (simp only: a b c low)
qed

section \<open>Evaluations\<close>

lemma weiToEth_two: "weiToEth 2000000000000000000 = Fin 2"
  by code_simp

lemma weiToEth_one: "weiToEth 1000000000000000000 = Fin 1"
  by code_simp

lemma weiToEth_tenth: "weiToEth 100000000000000000 = Fin (3602879701896397 / 36028797018963968)"
  by code_simp

lemma string_of_half: "number_to_string (Fin (1 / 2)) = ''0.5''"
  by code_simp

lemma string_of_tenth:
  "number_to_string (Fin (3602879701896397 / 36028797018963968)) = ''0.1''"
  by code_simp

lemma lower_approve: "toLowerCase ''0x095ea7b3'' = ''0x095ea7b3''"
  by code_simp

lemma lower_BBB: "toLowerCase ''0xBBB'' = ''0xbbb''"
  by code_simp

lemma selectorOf_approve: "selectorOf (''0x095ea7b3'' @ rest) = ''0x095ea7b3''"
proof -
  have "take 10 (''0x095ea7b3'' @ rest) = ''0x095ea7b3''"
    by simp
  then show ?thesis
    by (simp add: selectorOf_def lower_approve del: append.simps)
qed

section \<open>Properties of the rule matcher\<close>

text \<open>Each check appends to the reasons it is given and looks at nothing in them.\<close>

lemma check_value_append: "check_value eth rules rs = rs @ check_value eth rules []"
  by (simp add: check_value_def split: option.splits)

lemma check_allow_append: "check_allow sel rules rs = rs @ check_allow sel rules []"
  by (simp add: check_allow_def split: option.splits)

lemma check_deny_append: "check_deny sel rules rs = rs @ check_deny sel rules []"
  by (simp add: check_deny_def split: option.splits)

lemma check_watch_append: "check_watch tx rules rs = rs @ check_watch tx rules []"
  by (simp add: check_watch_def split: option.splits)

lemma run_check_append: "run_check tx rules c rs = rs @ run_check tx rules c []"
  by (cases c) (simp_all add: check_value_append [of _ _ rs] check_allow_append [of _ _ rs]
      check_deny_append [of _ _ rs] check_watch_append [of _ _ rs])

lemma fold_run_check:
  "fold (run_check tx rules) cs rs = rs @ concat (map (\<lambda>c. run_check tx rules c []) cs)"
proof (induction cs arbitrary: rs)
  case Nil
  show ?case by simp
next
  case (Cons c cs)
  show ?case
    by (simp add: Cons.IH run_check_append [of tx rules c rs])
qed

lemma matchRules_In:
  "matchRules tx rules = matchRulesIn [CheckValue, CheckAllow, CheckDeny, CheckWatch] tx rules"
  by (simp add: matchRules_def matchRulesIn_def Let_def)

lemma reason_In:
  "reason (matchRulesIn cs tx rules) = concat (map (\<lambda>c. run_check tx rules c []) cs)"
  by (simp add: matchRulesIn_def Let_def fold_run_check)

lemma ok_In: "ok (matchRulesIn cs tx rules) = (\<forall>c \<in> set cs. run_check tx rules c [] = [])"
  by (simp add: matchRulesIn_def Let_def fold_run_check)

lemma mset_concat_map: "mset (concat (map f cs)) = (\<Sum>c \<in># mset cs. mset (f c))"
  by (induction cs) simp_all

text \<open>
  Claim C1. For every transaction and rule set, with \<open>eth\<close> the converted value and
  \<open>sel\<close> the selector of the data, the reasons of \<open>matchRules\<close> are, in this order:
  \<open>value<\<close> and the threshold when \<open>minEth\<close> is set, truthy and above \<open>eth\<close>;
  \<open>!allowed:\<close> and \<open>sel\<close> when \<open>allowSelectors\<close> is non-empty and lacks \<open>sel\<close>;
  \<open>denied:\<close> and \<open>sel\<close> when \<open>denySelectors\<close> holds \<open>sel\<close>; \<open>!watched:to\<close> when
  \<open>watchRecipients\<close> is non-empty and lacks the lowercased recipient. Each of the four
  is tested whatever the others found, and \<open>ok\<close> says that none of them fired.
  Running the four checks in any other order gives the same \<open>ok\<close>, and the same
  reasons up to their order.
\<close>

theorem matchRules_all_checks_in_order:
  "(let eth = weiToEth (nullish (tx_value tx) 0);
        sel = selectorOf (nullish (tx_data tx) ''0x'');
        value_reason =
          (case minEth rules of
             None \<Rightarrow> []
           | Some m \<Rightarrow>
               if truthy m \<and> num_lt eth m then [''value<'' @ number_to_string m] else []);
        allow_reason =
          (case allowSelectors rules of
             None \<Rightarrow> []
           | Some allow \<Rightarrow>
               if allow \<noteq> [] \<and> sel \<notin> set allow then [''!allowed:'' @ sel] else []);
        deny_reason =
          (case denySelectors rules of
             None \<Rightarrow> []
           | Some deny \<Rightarrow> if sel \<in> set deny then [''denied:'' @ sel] else []);
        watch_reason =
          (case watchRecipients rules of
             None \<Rightarrow> []
           | Some watch \<Rightarrow>
               if watch \<noteq> [] \<and> toLowerCase (nullish (tx_to tx) []) \<notin> set watch
               then [''!watched:to''] else [])
    in reason (matchRules tx rules) =
         value_reason @ allow_reason @ deny_reason @ watch_reason
       \<and> ok (matchRules tx rules) =
           (value_reason = [] \<and> allow_reason = [] \<and> deny_reason = [] \<and> watch_reason = []))
   \<and> (\<forall>cs. mset cs = mset [CheckValue, CheckAllow, CheckDeny, CheckWatch] \<longrightarrow>
         ok (matchRulesIn cs tx rules) = ok (matchRules tx rules) \<and>
         mset (reason (matchRulesIn cs tx rules)) = mset (reason (matchRules tx rules)))"
proof (intro conjI allI impI)
  show "let eth = weiToEth (nullish (tx_value tx) 0);
        sel = selectorOf (nullish (tx_data tx) ''0x'');
        value_reason =
          (case minEth rules of
             None \<Rightarrow> []
           | Some m \<Rightarrow>
               if truthy m \<and> num_lt eth m then [''value<'' @ number_to_string m] else []);
        allow_reason =
          (case allowSelectors rules of
             None \<Rightarrow> []
           | Some allow \<Rightarrow>
               if allow \<noteq> [] \<and> sel \<notin> set allow then [''!allowed:'' @ sel] else []);
        deny_reason =
          (case denySelectors rules of
             None \<Rightarrow> []
           | Some deny \<Rightarrow> if sel \<in> set deny then [''denied:'' @ sel] else []);
        watch_reason =
          (case watchRecipients rules of
             None \<Rightarrow> []
           | Some watch \<Rightarrow>
               if watch \<noteq> [] \<and> toLowerCase (nullish (tx_to tx) []) \<notin> set watch
               then [''!watched:to''] else [])
    in reason (matchRules tx rules) =
         value_reason @ allow_reason @ deny_reason @ watch_reason
       \<and> ok (matchRules tx rules) =
           (value_reason = [] \<and> allow_reason = [] \<and> deny_reason = [] \<and> watch_reason = [])"
    by (simp add: matchRules_In reason_In ok_In Let_def check_value_def check_allow_def
        check_deny_def check_watch_def del: number_to_string.simps split: option.splits)
next
  fix cs assume perm: "mset cs = mset [CheckValue, CheckAllow, CheckDeny, CheckWatch]"
  then have "set cs = set [CheckValue, CheckAllow, CheckDeny, CheckWatch]"
    by (rule mset_eq_setD)
  then show "ok (matchRulesIn cs tx rules) = ok (matchRules tx rules)"
    by (simp only: matchRules_In ok_In)
  show "mset (reason (matchRulesIn cs tx rules)) = mset (reason (matchRules tx rules))"
    by (simp only: matchRules_In reason_In mset_concat_map perm)
qed

text \<open>
  At \<open>failing_tx\<close> and \<open>strict_rules\<close> all four checks fire: the four reasons come in
  the order of the checks, and in the reverse order when the checks are run in reverse.
\<close>

lemma failing_tx_selector: "selectorOf (nullish (tx_data failing_tx) ''0x'') = ''0x095ea7b3''"
  using selectorOf_approve [of "''00''"] by (simp add: failing_tx_def)

lemma failing_tx_eth:
  "weiToEth (nullish (tx_value failing_tx) 0) = Fin (3602879701896397 / 36028797018963968)"
  by (simp add: failing_tx_def weiToEth_tenth)

lemma failing_tx_to: "toLowerCase (nullish (tx_to failing_tx) []) = ''0xbbb''"
  by (simp add: failing_tx_def lower_BBB)

lemma failing_tx_reversed:
  "matchRulesIn [CheckWatch, CheckDeny, CheckAllow, CheckValue] failing_tx strict_rules =
     \<lparr> ok = False,
       reason = [''!watched:to'', ''denied:0x095ea7b3'', ''!allowed:0x095ea7b3'', ''value<0.5''] \<rparr>"
  by (simp add: matchRulesIn_def Let_def check_value_def check_allow_def check_deny_def
      check_watch_def strict_rules_def failing_tx_selector failing_tx_eth failing_tx_to
      string_of_half del: number_to_string.simps)

theorem matchRules_all_checks_in_order_witness:
  "mset [CheckWatch, CheckDeny, CheckAllow, CheckValue] =
     mset [CheckValue, CheckAllow, CheckDeny, CheckWatch] \<and>
   matchRules failing_tx strict_rules =
     \<lparr> ok = False,
       reason = [''value<0.5'', ''!allowed:0x095ea7b3'', ''denied:0x095ea7b3'', ''!watched:to''] \<rparr> \<and>
   matchRulesIn [CheckWatch, CheckDeny, CheckAllow, CheckValue] failing_tx strict_rules =
     \<lparr> ok = False,
       reason = [''!watched:to'', ''denied:0x095ea7b3'', ''!allowed:0x095ea7b3'', ''value<0.5''] \<rparr> \<and>
   ok (matchRulesIn [CheckWatch, CheckDeny, CheckAllow, CheckValue] failing_tx strict_rules) =
     ok (matchRules failing_tx strict_rules)"
proof -
  have perm: "mset [CheckWatch, CheckDeny, CheckAllow, CheckValue] =
     mset [CheckValue, CheckAllow, CheckDeny, CheckWatch]"
    by simp
  note at = matchRules_all_checks_in_order [of failing_tx strict_rules]
  have fields: "reason (matchRules failing_tx strict_rules) =
      [''value<0.5'', ''!allowed:0x095ea7b3'', ''denied:0x095ea7b3'', ''!watched:to''] \<and>
      ok (matchRules failing_tx strict_rules) = False"
    using at [THEN conjunct1]
    by (simp add: Let_def strict_rules_def failing_tx_selector failing_tx_eth failing_tx_to
        string_of_half del: number_to_string.simps)
  have verdict: "matchRules failing_tx strict_rules =
     \<lparr> ok = False,
       reason = [''value<0.5'', ''!allowed:0x095ea7b3'', ''denied:0x095ea7b3'', ''!watched:to''] \<rparr>"
    using fields by (cases "matchRules failing_tx strict_rules") simp
  have same: "ok (matchRulesIn [CheckWatch, CheckDeny, CheckAllow, CheckValue] failing_tx
      strict_rules) = ok (matchRules failing_tx strict_rules)"
    by (rule at [THEN conjunct2, THEN spec, THEN mp, OF perm, THEN conjunct1])
  show ?thesis
    by (intro conjI perm verdict failing_tx_reversed same)
qed

text \<open>
  Claim C4. The verdict of \<open>matchRules\<close> has \<open>ok\<close> true exactly when its list of
  reasons is empty.
\<close>

theorem matchRules_ok_iff_no_reason:
  "ok (matchRules tx rules) = (reason (matchRules tx rules) = [])"
  by (simp add: matchRules_def Let_def)

text \<open>
  Claim C5. When \<open>minEth\<close> is unset and each of \<open>allowSelectors\<close>, \<open>denySelectors\<close>
  and \<open>watchRecipients\<close> is unset or empty, every transaction is accepted with no
  reason.
\<close>

theorem matchRules_empty_rules_accept:
  assumes "minEth rules = None"
    and "allowSelectors rules = None \<or> allowSelectors rules = Some []"
    and "denySelectors rules = None \<or> denySelectors rules = Some []"
    and "watchRecipients rules = None \<or> watchRecipients rules = Some []"
  shows "matchRules tx rules = \<lparr> ok = True, reason = [] \<rparr>"
  using assms
  by (auto simp add: matchRules_def Let_def check_value_def check_allow_def check_deny_def
      check_watch_def)

theorem matchRules_empty_rules_accept_witness:
  "matchRules \<lparr> tx_hash = ''0x1'', tx_from = Some ''0xdef'', tx_to = Some ''0xabc'',
       tx_value = Some 5, tx_data = Some ''0x095ea7b300'', tx_nonce = Fin 5 \<rparr>
     \<lparr> minEth = None, allowSelectors = None, denySelectors = Some [], watchRecipients = None \<rparr>
   = \<lparr> ok = True, reason = [] \<rparr>"
  by (rule matchRules_empty_rules_accept) simp_all

text \<open>
  Claim C10. When \<open>allowSelectors\<close> is non-empty and does not hold the sentinel
  \<open>0x00000000\<close>, every transaction whose data is absent or shorter than 10 characters
  (the empty string included) is rejected, and \<open>!allowed:0x00000000\<close> is among the
  reasons.
\<close>

theorem matchRules_plain_transfer_not_allowed:
  assumes "allowSelectors rules = Some allow" and "allow \<noteq> []"
    and "''0x00000000'' \<notin> set allow"
    and "tx_data tx = None \<or> (\<exists>d. tx_data tx = Some d \<and> length d < 10)"
  shows "\<not> ok (matchRules tx rules) \<and>
         ''!allowed:0x00000000'' \<in> set (reason (matchRules tx rules))"
proof -
  have sel: "selectorOf (nullish (tx_data tx) ''0x'') = ''0x00000000''"
    using assms(4) by (auto simp add: selectorOf_short)
  have "run_check tx rules CheckAllow [] = [''!allowed:0x00000000'']"
    using assms(1-3) by (simp add: sel check_allow_def)
  then show ?thesis
    by (simp add: matchRules_In reason_In ok_In)
qed

theorem matchRules_plain_transfer_not_allowed_witness:
  "\<not> ok (matchRules \<lparr> tx_hash = ''0x1'', tx_from = Some ''0xdef'', tx_to = Some ''0xabc'',
       tx_value = Some 5, tx_data = Some '''', tx_nonce = Fin 5 \<rparr>
     \<lparr> minEth = None, allowSelectors = Some [''0xa9059cbb''], denySelectors = None,
       watchRecipients = None \<rparr>) \<and>
   ''!allowed:0x00000000'' \<in> set (reason (matchRules
     \<lparr> tx_hash = ''0x1'', tx_from = Some ''0xdef'', tx_to = Some ''0xabc'',
       tx_value = Some 5, tx_data = Some '''', tx_nonce = Fin 5 \<rparr>
     \<lparr> minEth = None, allowSelectors = Some [''0xa9059cbb''], denySelectors = None,
       watchRecipients = None \<rparr>))"
  by (rule matchRules_plain_transfer_not_allowed [of _ "[''0xa9059cbb'']"]) simp_all

section \<open>Properties of rounding\<close>

lemma rhe_cases: "round_half_even x = \<lfloor>x\<rfloor> \<or> round_half_even x = \<lfloor>x\<rfloor> + 1"
  by (simp add: round_half_even_def Let_def)

lemma rhe_of_int: "round_half_even (of_int n) = n"
  by (simp add: round_half_even_def Let_def)

lemma rhe_ge_floor: "\<lfloor>x\<rfloor> \<le> round_half_even x"
  using rhe_cases [of x] by linarith

lemma rhe_le_floor1: "round_half_even x \<le> \<lfloor>x\<rfloor> + 1"
  using rhe_cases [of x] by linarith

lemma rhe_mono:
  assumes "x \<le> y"
  shows "round_half_even x \<le> round_half_even y"
proof (cases "\<lfloor>x\<rfloor> = \<lfloor>y\<rfloor>")
  case False
  with assms have "\<lfloor>x\<rfloor> < \<lfloor>y\<rfloor>"
    using floor_mono [of x y] by linarith
  then have "round_half_even x \<le> \<lfloor>y\<rfloor>"
    using rhe_le_floor1 [of x] by linarith
  then show ?thesis
    using rhe_ge_floor [of y] by linarith
next
  case True
  with assms have "x - of_int \<lfloor>x\<rfloor> \<le> y - of_int \<lfloor>y\<rfloor>"
    by simp
  then show ?thesis
    by (auto simp add: round_half_even_def Let_def True)
qed

lemma binexp_bounds:
  assumes "0 < q"
  shows "2 powi (binexp q) \<le> q \<and> q < 2 powi (binexp q + 1)"
proof (cases "1 \<le> q")
  case True
  let ?f = "\<lfloor>q\<rfloor>"
  have f: "0 < ?f" using True by simp
  have e: "binexp q = bitlen ?f - 1" using True by (simp add: binexp_def)
  have b1: "1 \<le> bitlen ?f"
    using f bitlen_eq_zero_iff [of ?f] bitlen_nonneg [of ?f] by linarith
  from bitlen_bounds [OF f]
  have lo: "2 ^ nat (bitlen ?f - 1) \<le> ?f" and hi: "?f < 2 ^ nat (bitlen ?f)"
    by simp_all
  have "(2::rat) powi (binexp q) = of_int (2 ^ nat (bitlen ?f - 1))"
    using b1 by (simp add: e power_int_def)
  also have "\<dots> \<le> of_int ?f"
    using lo by (simp only: of_int_le_iff)
  also have "\<dots> \<le> q" by simp
  finally have A: "2 powi (binexp q) \<le> q" .
  have "?f + 1 \<le> 2 ^ nat (bitlen ?f)" using hi by simp
  then have "(of_int (?f + 1) :: rat) \<le> of_int (2 ^ nat (bitlen ?f))"
    by (simp only: of_int_le_iff)
  moreover have "q < of_int (?f + 1)" by linarith
  moreover have "(2::rat) powi (binexp q + 1) = of_int (2 ^ nat (bitlen ?f))"
    using b1 by (simp add: e power_int_def)
  ultimately have "q < 2 powi (binexp q + 1)" by linarith
  with A show ?thesis by simp
next
  case False
  let ?c = "\<lceil>1 / q\<rceil> - 1"
  let ?L = "bitlen ?c"
  have q1: "q < 1" using False by simp
  have "1 < 1 / q" using assms q1 by simp
  then have "1 < \<lceil>1 / q\<rceil>" by linarith
  then have c: "0 < ?c" by simp
  have e: "binexp q = - ?L" using False by (simp add: binexp_def)
  have b1: "1 \<le> ?L"
    using c bitlen_eq_zero_iff [of ?c] bitlen_nonneg [of ?c] by linarith
  from bitlen_bounds [OF c]
  have lo: "2 ^ nat (?L - 1) \<le> ?c" and hi: "?c < 2 ^ nat ?L"
    by simp_all
  have c_lt: "of_int ?c < 1 / q" by linarith
  have c_ge: "1 / q \<le> of_int (?c + 1)" by simp
  have "?c + 1 \<le> 2 ^ nat ?L" using hi by simp
  then have "(of_int (?c + 1) :: rat) \<le> of_int (2 ^ nat ?L)"
    by (simp only: of_int_le_iff)
  moreover have "(of_int (2 ^ nat ?L) :: rat) = 2 ^ nat ?L" by simp
  ultimately have "1 / q \<le> 2 ^ nat ?L" using c_ge by linarith
  then have "1 \<le> 2 ^ nat ?L * q"
    using assms by (simp add: pos_divide_le_eq)
  then have "1 / 2 ^ nat ?L \<le> q"
    by (simp add: pos_divide_le_eq mult.commute)
  moreover have "(2::rat) powi (binexp q) = 1 / 2 ^ nat ?L"
    using b1 by (simp add: e power_int_def inverse_eq_divide power_one_over)
  ultimately have A: "2 powi (binexp q) \<le> q" by simp
  have "(of_int (2 ^ nat (?L - 1)) :: rat) \<le> of_int ?c"
    using lo by (simp only: of_int_le_iff)
  moreover have "(of_int (2 ^ nat (?L - 1)) :: rat) = 2 ^ nat (?L - 1)" by simp
  ultimately have "2 ^ nat (?L - 1) < 1 / q" using c_lt by linarith
  then have "2 ^ nat (?L - 1) * q < 1"
    using assms by (simp add: pos_less_divide_eq)
  then have "q < 1 / 2 ^ nat (?L - 1)"
    by (simp add: pos_less_divide_eq mult.commute)
  moreover have "(2::rat) powi (binexp q + 1) = 1 / 2 ^ nat (?L - 1)"
  proof -
    have "binexp q + 1 = - (?L - 1)" using e by simp
    then have "(2::rat) powi (binexp q + 1) = inverse (2 powi (?L - 1))"
      by (simp only: power_int_minus)
    also have "\<dots> = 1 / 2 ^ nat (?L - 1)"
      using b1 by (simp add: power_int_def inverse_eq_divide)
    finally show ?thesis .
  qed
  ultimately have "q < 2 powi (binexp q + 1)" by simp
  with A show ?thesis by simp
qed

lemma binexp_mono:
  assumes "0 < p" and "p \<le> q"
  shows "binexp p \<le> binexp q"
proof -
  have "0 < q" using assms by linarith
  from binexp_bounds [OF assms(1)] binexp_bounds [OF this] assms(2)
  have "(2::rat) powi (binexp p) < 2 powi (binexp q + 1)"
    by linarith
  then have "binexp p < binexp q + 1"
    using power_int_increasing [of "binexp q + 1" "binexp p" "2::rat"] by force
  then show ?thesis by simp
qed

lemma binexp_ge_iff:
  assumes "0 < q"
  shows "(k \<le> binexp q) = (2 powi k \<le> q)"
proof
  assume "k \<le> binexp q"
  then have "(2::rat) powi k \<le> 2 powi (binexp q)"
    by (rule power_int_increasing) simp
  with binexp_bounds [OF assms] show "2 powi k \<le> q" by linarith
next
  assume "2 powi k \<le> q"
  with binexp_bounds [OF assms] have "(2::rat) powi k < 2 powi (binexp q + 1)"
    by linarith
  then have "k < binexp q + 1"
    using power_int_increasing [of "binexp q + 1" k "2::rat"] by force
  then show "k \<le> binexp q" by simp
qed

lemma ulp_pos: "0 < ulp q"
  by (simp add: ulp_def)

lemma round_pos_nonneg:
  assumes "0 < q"
  shows "0 \<le> round_pos q"
proof -
  have "0 \<le> q / ulp q"
    using assms ulp_pos [of q] by simp
  then have "round_half_even 0 \<le> round_half_even (q / ulp q)"
    by (rule rhe_mono)
  then have "0 \<le> round_half_even (q / ulp q)"
    using rhe_of_int [of 0] by simp
  then show ?thesis
    using ulp_pos [of q] by (simp add: round_pos_def)
qed

text \<open>The rounded value stays within the binade, its upper end included.\<close>

lemma round_pos_upper:
  assumes "0 < q"
  shows "round_pos q \<le> 2 powi (max (binexp q) (- 1022) + 1)"
proof -
  let ?E = "max (binexp q) (- 1022)"
  have u: "ulp q = 2 powi (?E - 52)" by (simp add: ulp_def)
  have split: "(2::rat) powi (?E + 1) = 2 powi 53 * 2 powi (?E - 52)"
    using power_int_add [of "2::rat" 53 "?E - 52"] by (simp add: add.commute)
  have "q < 2 powi (binexp q + 1)"
    using binexp_bounds [OF assms] by simp
  also have "\<dots> \<le> 2 powi (?E + 1)"
    by (rule power_int_increasing) simp_all
  finally have "q / ulp q \<le> 2 powi 53"
    using ulp_pos [of q] by (simp add: pos_divide_le_eq split u)
  then have "q / ulp q \<le> of_int (2 ^ 53)" by simp
  then have "round_half_even (q / ulp q) \<le> round_half_even (of_int (2 ^ 53))"
    by (rule rhe_mono)
  then have "round_half_even (q / ulp q) \<le> 2 ^ 53"
    by (simp only: rhe_of_int)
  then have "(of_int (round_half_even (q / ulp q)) :: rat) \<le> of_int (2 ^ 53)"
    by (simp only: of_int_le_iff)
  then have "of_int (round_half_even (q / ulp q)) * ulp q \<le> of_int (2 ^ 53) * ulp q"
    using ulp_pos [of q] by (simp only: mult_le_cancel_right_pos)
  also have "\<dots> = 2 powi (?E + 1)"
    by (simp add: split u)
  finally show ?thesis
    by (simp only: round_pos_def)
qed

text \<open>A normal value is rounded to no less than the lower end of its binade.\<close>

lemma round_pos_lower:
  assumes "0 < q" and "- 1022 \<le> binexp q"
  shows "2 powi (binexp q) \<le> round_pos q"
proof -
  let ?e = "binexp q"
  have u: "ulp q = 2 powi (?e - 52)" using assms(2) by (simp add: ulp_def max_def)
  have split: "(2::rat) powi ?e = 2 powi 52 * 2 powi (?e - 52)"
    using power_int_add [of "2::rat" 52 "?e - 52"] by simp
  have "2 powi ?e \<le> q"
    using binexp_bounds [OF assms(1)] by simp
  then have "2 powi 52 \<le> q / ulp q"
    using ulp_pos [of q] by (simp add: pos_le_divide_eq split u)
  then have "of_int (2 ^ 52) \<le> q / ulp q" by simp
  then have "round_half_even (of_int (2 ^ 52)) \<le> round_half_even (q / ulp q)"
    by (rule rhe_mono)
  then have "2 ^ 52 \<le> round_half_even (q / ulp q)"
    by (simp only: rhe_of_int)
  then have "(of_int (2 ^ 52) :: rat) \<le> of_int (round_half_even (q / ulp q))"
    by (simp only: of_int_le_iff)
  then have "of_int (2 ^ 52) * ulp q \<le> of_int (round_half_even (q / ulp q)) * ulp q"
    using ulp_pos [of q] by (simp only: mult_le_cancel_right_pos)
  moreover have "of_int (2 ^ 52) * ulp q = 2 powi ?e"
    by (simp add: split u)
  ultimately show ?thesis
    by (simp only: round_pos_def)
qed

lemma round_pos_mono:
  assumes "0 < p" and "p \<le> q"
  shows "round_pos p \<le> round_pos q"
proof -
  have q: "0 < q" using assms by linarith
  let ?Ep = "max (binexp p) (- 1022)" and ?Eq = "max (binexp q) (- 1022)"
  have le: "?Ep \<le> ?Eq"
    using binexp_mono [OF assms] by simp
  show ?thesis
  proof (cases "?Ep = ?Eq")
    case True
    then have u: "ulp p = ulp q" by (simp only: ulp_def)
    have "p / ulp q \<le> q / ulp q"
      using assms(2) ulp_pos [of q] by (simp add: divide_le_cancel)
    then have "round_half_even (p / ulp q) \<le> round_half_even (q / ulp q)"
      by (rule rhe_mono)
    then have "(of_int (round_half_even (p / ulp q)) :: rat) \<le> of_int (round_half_even (q / ulp q))"
      by (simp only: of_int_le_iff)
    then show ?thesis
      using ulp_pos [of q] by (simp only: round_pos_def u mult_le_cancel_right_pos)
  next
    case False
    with le have lt: "?Ep + 1 \<le> ?Eq" by simp
    then have n: "- 1022 \<le> binexp q" and eq: "?Eq = binexp q" by simp_all
    have "round_pos p \<le> 2 powi (?Ep + 1)"
      by (rule round_pos_upper [OF assms(1)])
    also have "\<dots> \<le> 2 powi ?Eq"
      using lt by (rule power_int_increasing) simp
    also have "\<dots> = 2 powi (binexp q)"
      by (simp only: eq)
    also have "\<dots> \<le> round_pos q"
      by (rule round_pos_lower [OF q n])
    finally show ?thesis .
  qed
qed

lemma to_double_pos:
  assumes "0 < q"
  shows "to_double q = (if 1024 \<le> binexp (round_pos q) then PInf else Fin (round_pos q))"
  using assms by (simp add: to_double_def Let_def)

lemma to_double_nonneg_cases:
  assumes "0 \<le> q"
  shows "to_double q = PInf \<or> (\<exists>r. 0 \<le> r \<and> to_double q = Fin r)"
proof (cases "q = 0")
  case True
  then show ?thesis by (simp add: to_double_def)
next
  case False
  with assms have "0 < q" by simp
  then show ?thesis
    using round_pos_nonneg [of q] by (simp add: to_double_pos)
qed

lemma to_double_mono:
  assumes "0 \<le> p" and "p \<le> q"
  shows "num_le (to_double p) (to_double q)"
proof (cases "p = 0")
  case True
  have "0 \<le> q" using assms by linarith
  have z: "to_double p = Fin 0" by (simp add: True to_double_def)
  from to_double_nonneg_cases [OF \<open>0 \<le> q\<close>] show ?thesis
    by (auto simp add: z)
next
  case False
  with assms have p: "0 < p" and q: "0 < q" by simp_all
  have r: "round_pos p \<le> round_pos q"
    by (rule round_pos_mono [OF p assms(2)])
  show ?thesis
  proof (cases "1024 \<le> binexp (round_pos p)")
    case True
    have "round_pos p \<noteq> 0"
    proof
      assume "round_pos p = 0"
      then have "binexp (round_pos p) = 0"
        by (simp add: binexp_def bitlen_eq_zero_iff)
      with True show False by simp
    qed
    with round_pos_nonneg [OF p] have "0 < round_pos p" by simp
    from binexp_mono [OF this r] True have "1024 \<le> binexp (round_pos q)"
      by simp
    with True show ?thesis
      by (simp add: to_double_pos [OF p] to_double_pos [OF q])
  next
    case False
    with r show ?thesis
      by (simp add: to_double_pos [OF p] to_double_pos [OF q])
  qed
qed

lemma weiToEth_Number:
  "weiToEth a = (case Number a of Fin x \<Rightarrow> to_double (x / 10 ^ 18) | PInf \<Rightarrow> PInf
                   | NInf \<Rightarrow> NInf | NaN \<Rightarrow> NaN)"
  by (simp add: weiToEth_def split: number.splits)

lemma rhe_upper: "of_int (round_half_even y) \<le> y + 1 / 2"
proof (cases "y - of_int \<lfloor>y\<rfloor> < 1 / 2")
  case True
  then have "round_half_even y = \<lfloor>y\<rfloor>"
    by (simp add: round_half_even_def Let_def)
  moreover have "of_int \<lfloor>y\<rfloor> \<le> y" by simp
  ultimately show ?thesis by linarith
next
  case False
  have "(of_int (round_half_even y) :: rat) \<le> of_int (\<lfloor>y\<rfloor> + 1)"
    using rhe_le_floor1 [of y] by (simp only: of_int_le_iff)
  with False show ?thesis by simp
qed

lemma binexp_zero: "binexp 0 = 0"
  by (simp add: binexp_def bitlen_eq_zero_iff)

lemma binexp_less:
  assumes "0 < q" and "q < 2 powi k"
  shows "binexp q < k"
proof -
  from binexp_bounds [OF assms(1)] assms(2) have "(2::rat) powi (binexp q) < 2 powi k"
    by linarith
  then show ?thesis
    using power_int_increasing [of k "binexp q" "2::rat"] by force
qed

text \<open>
  \<open>Math.floor(Date.now() / 1000)\<close> is the whole number of seconds of a clock reading
  of \<open>ms\<close> milliseconds, over the whole range of time values: the quotient is rounded
  by less than a thousandth and not below the integer under it.
\<close>

lemma seconds_of_millis:
  assumes "0 \<le> ms" and "ms \<le> 8640000000000000"
  shows "Math_floor (num_div (Fin (of_int ms)) (Fin 1000)) = Fin (of_int (ms div 1000))"
proof (cases "ms = 0")
  case True
  then show ?thesis by (simp add: to_double_def)
next
  case False
  define x :: rat where "x = of_int ms / 1000"
  define n where "n = ms div 1000"
  define u where "u = ulp x"
  define k where "k = nat (52 - binexp x)"
  have ms: "0 < ms" using False assms(1) by simp
  then have x: "0 < x" by (simp add: x_def)
  have n_le: "of_int n \<le> x"
  proof -
    have "n * 1000 \<le> ms" unfolding n_def by simp
    then have "(of_int (n * 1000) :: rat) \<le> of_int ms" by (simp only: of_int_le_iff)
    then show ?thesis by (simp add: x_def pos_le_divide_eq)
  qed
  have x_le: "x \<le> of_int n + 999 / 1000"
  proof -
    have "ms = n * 1000 + ms mod 1000" unfolding n_def by simp
    moreover have "ms mod 1000 \<le> 999" by simp
    ultimately have "ms \<le> n * 1000 + 999" by linarith
    then have "(of_int ms :: rat) \<le> of_int (n * 1000 + 999)" by (simp only: of_int_le_iff)
    then show ?thesis by (simp add: x_def pos_divide_le_eq algebra_simps)
  qed
  have "x < 2 powi 43"
  proof -
    have "(of_int ms :: rat) \<le> of_int 8640000000000000"
      using assms(2) by (simp only: of_int_le_iff)
    then show ?thesis by (simp add: x_def)
  qed
  from binexp_less [OF x this] have e_hi: "binexp x < 43" .
  have "(2::rat) powi (- 10) \<le> x"
  proof -
    have "(of_int 1 :: rat) \<le> of_int ms" using ms by (simp only: of_int_le_iff)
    then show ?thesis by (simp add: x_def)
  qed
  with binexp_ge_iff [OF x, of "- 10"] have e_lo: "- 10 \<le> binexp x" by simp
  have u: "u = 2 powi (binexp x - 52)"
    using e_lo by (simp add: u_def ulp_def max_def)
  have u_pos: "0 < u" by (simp add: u)
  have uk: "u = 1 / 2 ^ k"
  proof -
    have "binexp x - 52 = - int k" using e_hi by (simp add: k_def)
    then show ?thesis by (simp add: u power_int_minus inverse_eq_divide)
  qed
  have u_small: "u \<le> 1 / 512"
  proof -
    have "(2::rat) powi (binexp x - 52) \<le> 2 powi (- 9)"
      using e_hi by (intro power_int_increasing) simp_all
    then show ?thesis by (simp add: u)
  qed
  define m where "m = round_half_even (x / u)"
  have r: "round_pos x = of_int m * u" by (simp add: round_pos_def m_def u_def)
  have lower: "of_int n \<le> of_int m * u"
  proof -
    have "of_int (n * 2 ^ k) = of_int n / u" by (simp add: uk)
    also have "\<dots> \<le> x / u" using n_le u_pos by (simp add: divide_le_cancel)
    finally have "round_half_even (of_int (n * 2 ^ k)) \<le> m"
      unfolding m_def by (rule rhe_mono)
    then have "n * 2 ^ k \<le> m" by (simp only: rhe_of_int)
    then have "(of_int (n * 2 ^ k) :: rat) \<le> of_int m" by (simp only: of_int_le_iff)
    then have "of_int (n * 2 ^ k) * u \<le> of_int m * u"
      using u_pos by (simp only: mult_le_cancel_right_pos)
    then show ?thesis by (simp add: uk)
  qed
  have upper: "of_int m * u < of_int n + 1"
  proof -
    have "of_int m \<le> x / u + 1 / 2" unfolding m_def by (rule rhe_upper)
    then have "of_int m * u \<le> (x / u + 1 / 2) * u"
      using u_pos by (simp only: mult_le_cancel_right_pos)
    also have "\<dots> = x + u / 2" using u_pos by (simp add: algebra_simps)
    finally show ?thesis using x_le u_small by linarith
  qed
  have fl: "\<lfloor>of_int m * u\<rfloor> = n"
    using lower upper by (simp add: floor_unique)
  have fin: "\<not> 1024 \<le> binexp (of_int m * u)"
  proof (cases "of_int m * u = 0")
    case True
    have "binexp (of_int m * u) = 0"
      by (simp only: True binexp_zero)
    then show ?thesis by linarith
  next
    case False
    have "0 \<le> n" using assms(1) by (simp add: n_def)
    then have "(0::rat) \<le> of_int n" by (simp only: of_int_0_le_iff)
    with lower False have pos: "0 < of_int m * u" by linarith
    have "n \<le> 8640000000000" using assms(2) unfolding n_def by simp
    then have "(of_int n :: rat) \<le> of_int 8640000000000" by (simp only: of_int_le_iff)
    with upper have "of_int m * u < 2 powi 44" by simp
    from binexp_less [OF pos this] show ?thesis by simp
  qed
  have "num_div (Fin (of_int ms)) (Fin 1000) = to_double x"
    by (simp add: x_def)
  also have "\<dots> = Fin (of_int m * u)"
    using fin by (simp add: to_double_pos [OF x] r)
  finally show ?thesis
    by (simp add: fl n_def)
qed

section \<open>Amount conversion\<close>

text \<open>
  Claim C9. Amount conversion is monotonic: for integer amounts \<open>0 \<le> a < b\<close> the
  number \<open>weiToEth a\<close> is less than or equal to \<open>weiToEth b\<close> under the operator \<open><=\<close>
  of numbers, the conversion to a double and the division by \<open>1e18\<close> both rounding to
  the nearest double, ties to even, and overflowing to \<open>Infinity\<close>.
\<close>

theorem weiToEth_monotonic:
  assumes "0 \<le> a" and "a < b"
  shows "num_le (weiToEth a) (weiToEth b)"
proof -
  have a: "(0::rat) \<le> of_int a" and ab: "(of_int a :: rat) \<le> of_int b" and b: "(0::rat) \<le> of_int b"
    using assms by simp_all
  have le: "num_le (Number a) (Number b)"
    unfolding Number_def by (rule to_double_mono [OF a ab])
  from to_double_nonneg_cases [OF a] to_double_nonneg_cases [OF b]
  consider (inf) "Number b = PInf"
    | (fin) x y where "0 \<le> x" "Number a = Fin x" "Number b = Fin y"
    using le unfolding Number_def by auto
  then show ?thesis
  proof cases
    case inf
    from to_double_nonneg_cases [OF a] show ?thesis
    proof
      assume "to_double (of_int a) = PInf"
      then show ?thesis by (simp add: weiToEth_Number inf Number_def [of a])
    next
      assume "\<exists>r. 0 \<le> r \<and> to_double (of_int a) = Fin r"
      then obtain r where r: "0 \<le> r" "Number a = Fin r"
        unfolding Number_def by blast
      then have "0 \<le> r / 10 ^ 18" by simp
      from to_double_nonneg_cases [OF this] show ?thesis
        by (auto simp add: weiToEth_Number inf r)
    qed
  next
    case fin
    with le have "x \<le> y" by simp
    then have "x / 10 ^ 18 \<le> y / 10 ^ 18"
      by (simp add: divide_le_cancel)
    moreover have "0 \<le> x / 10 ^ 18" using fin(1) by simp
    ultimately have "num_le (to_double (x / 10 ^ 18)) (to_double (y / 10 ^ 18))"
      by (intro to_double_mono)
    then show ?thesis
      by (simp add: weiToEth_Number fin)
  qed
qed

theorem weiToEth_monotonic_witness:
  "(0::int) \<le> 999999999999999999 \<and> (999999999999999999::int) < 1000000000000000000 \<and>
   num_le (weiToEth 999999999999999999) (weiToEth 1000000000000000000)"
proof -
  have a: "(0::int) \<le> 999999999999999999" by simp
  have b: "(999999999999999999::int) < 1000000000000000000" by simp
  from a b weiToEth_monotonic [OF a b] show ?thesis by simp
qed

section \<open>The scenarios\<close>

text \<open>
  Claim C6. With the rule set \<open>{minEth: 0.5, denySelectors: ["0x095ea7b3"]}\<close>, a
  transaction of value \<open>2 * 10 ^ 18\<close> whose data begins with \<open>0x095ea7b3\<close> is rejected
  and its only reason is \<open>denied:0x095ea7b3\<close>: that reason is in the list and no
  value reason is, the converted amount being \<open>2\<close>, which is not below \<open>0.5\<close>.
\<close>

theorem scenario_denied_selector:
  "matchRules (tx\<lparr>tx_value := Some (2 * 10 ^ 18), tx_data := Some (''0x095ea7b3'' @ rest)\<rparr>)
     scenario_rules = \<lparr> ok = False, reason = [''denied:0x095ea7b3''] \<rparr> \<and>
   weiToEth (2 * 10 ^ 18) = Fin 2 \<and> \<not> num_lt (Fin 2) (Fin (1 / 2))"
  by (simp add: matchRules_def Let_def check_value_def check_allow_def check_deny_def
      check_watch_def scenario_rules_def selectorOf_approve weiToEth_two del: append.simps)

text \<open>
  Claim C7. With the same rule set, a transaction of value \<open>10 ^ 17\<close> and data \<open>0x\<close>
  is rejected with the reasons \<open>["value<0.5"]\<close> and nothing else: the converted amount
  is the double that prints as \<open>0.1\<close>, it is below \<open>0.5\<close>, the selector is the sentinel
  \<open>0x00000000\<close>, and the sentinel is not in the deny list.
\<close>

theorem scenario_value_below_threshold:
  "matchRules (tx\<lparr>tx_value := Some (10 ^ 17), tx_data := Some ''0x''\<rparr>) scenario_rules =
     \<lparr> ok = False, reason = [''value<0.5''] \<rparr> \<and>
   number_to_string (weiToEth (10 ^ 17)) = ''0.1'' \<and>
   num_lt (weiToEth (10 ^ 17)) (Fin (1 / 2)) \<and>
   selectorOf ''0x'' = ''0x00000000'' \<and>
   ''0x00000000'' \<notin> set [''0x095ea7b3'']"
  by (simp add: matchRules_def Let_def check_value_def check_allow_def check_deny_def
      check_watch_def scenario_rules_def selectorOf_def weiToEth_tenth string_of_half
      string_of_tenth del: number_to_string.simps)

text \<open>
  Claim C8. With the rule set \<open>{watchRecipients: ["0xaaa"]}\<close>, a transaction to
  \<open>0xBBB\<close> is rejected with the reasons \<open>["!watched:to"]\<close> and nothing else: the
  recipient is lowercased to \<open>0xbbb\<close>, which is not in the watch list.
\<close>

theorem scenario_unwatched_recipient:
  "matchRules (tx\<lparr>tx_to := Some ''0xBBB''\<rparr>) watch_rules =
     \<lparr> ok = False, reason = [''!watched:to''] \<rparr> \<and>
   toLowerCase ''0xBBB'' = ''0xbbb'' \<and> ''0xbbb'' \<notin> set [''0xaaa'']"
  by (simp add: matchRules_def Let_def check_value_def check_allow_def check_deny_def
      check_watch_def watch_rules_def lower_BBB)

section \<open>The alert record\<close>

lemma sample_tx_ok: "ok (matchRules sample_tx RULES)"
  by (simp add: matchRules_def Let_def check_value_def check_allow_def check_deny_def
      check_watch_def RULES_def sample_tx_def selectorOf_def weiToEth_one)

text \<open>
  Claim C3, as the specification states it, names the last property \<open>timestamp\<close>.
  The record printed for the accepted \<open>sample_tx\<close> has the properties \<open>type\<close>,
  \<open>hash\<close>, \<open>from\<close>, \<open>to\<close>, \<open>eth\<close>, \<open>selector\<close>, \<open>nonce\<close> and \<open>ts\<close>: there is no
  property \<open>timestamp\<close>.
\<close>

theorem alert_timestamp_key_counterexample:
  "ok (matchRules sample_tx RULES) \<and>
   map_option (map fst) (on_pending (Fin 1700000000999) (Found sample_tx)) =
     Some [''type'', ''hash'', ''from'', ''to'', ''eth'', ''selector'', ''nonce'', ''ts''] \<and>
   map_option (map fst) (on_pending (Fin 1700000000999) (Found sample_tx)) \<noteq>
     Some [''type'', ''hash'', ''from'', ''to'', ''eth'', ''selector'', ''nonce'',
           ''timestamp'']"
  by (simp add: sample_tx_ok on_pending_def)

text \<open>
  Claim C3, amended. For every transaction that \<open>RULES\<close> accepts and every clock
  reading \<open>ms\<close> of \<open>Date.now()\<close> from the epoch on (\<open>8.64e15\<close> is the largest time
  value), the record has exactly the properties \<open>type\<close> (the string \<open>mempool_alert\<close>),
  \<open>hash\<close>, \<open>from\<close> (lowercased), \<open>to\<close> (lowercased, the empty string when the
  recipient is absent), \<open>eth\<close>, \<open>selector\<close>, \<open>nonce\<close> and \<open>ts\<close> (the whole seconds
  \<open>ms div 1000\<close>), in this order.
\<close>

theorem alert_record_fields:
  assumes "ok (matchRules tx RULES)" and "0 \<le> ms" and "ms \<le> 8640000000000000"
  shows "on_pending (Fin (of_int ms)) (Found tx) = Some
      [(''type'', JString ''mempool_alert''),
       (''hash'', JString (tx_hash tx)),
       (''from'', JString (toLowerCase (nullish (tx_from tx) []))),
       (''to'', JString (case tx_to tx of None \<Rightarrow> [] | Some t \<Rightarrow> toLowerCase t)),
       (''eth'', JNumber (weiToEth (nullish (tx_value tx) 0))),
       (''selector'', JString (selectorOf (nullish (tx_data tx) ''0x''))),
       (''nonce'', JNumber (tx_nonce tx)),
       (''ts'', JNumber (Fin (of_int (ms div 1000))))]"
proof -
  have to: "toLowerCase (nullish (tx_to tx) []) =
      (case tx_to tx of None \<Rightarrow> [] | Some t \<Rightarrow> toLowerCase t)"
    by (simp add: toLowerCase_def split: option.splits)
  show ?thesis
    by (simp only: on_pending_def fetched.case assms(1) not_True_eq_False if_False to
        seconds_of_millis [OF assms(2,3)])
qed

theorem alert_record_fields_witness:
  "ok (matchRules sample_tx RULES) \<and>
   on_pending (Fin (of_int 1700000000999)) (Found sample_tx) = Some
      [(''type'', JString ''mempool_alert''),
       (''hash'', JString ''0x1''),
       (''from'', JString ''0xdef''),
       (''to'', JString []),
       (''eth'', JNumber (Fin 1)),
       (''selector'', JString ''0x00000000''),
       (''nonce'', JNumber (Fin 5)),
       (''ts'', JNumber (Fin 1700000000))]"
proof -
  have low: "toLowerCase ''0xDEF'' = ''0xdef''" by code_simp
  have "on_pending (Fin (of_int 1700000000999)) (Found sample_tx) = Some
      [(''type'', JString ''mempool_alert''),
       (''hash'', JString (tx_hash sample_tx)),
       (''from'', JString (toLowerCase (nullish (tx_from sample_tx) []))),
       (''to'', JString (case tx_to sample_tx of None \<Rightarrow> [] | Some t \<Rightarrow> toLowerCase t)),
       (''eth'', JNumber (weiToEth (nullish (tx_value sample_tx) 0))),
       (''selector'', JString (selectorOf (nullish (tx_data sample_tx) ''0x''))),
       (''nonce'', JNumber (tx_nonce sample_tx)),
       (''ts'', JNumber (Fin (of_int (1700000000999 div 1000))))]"
    by (rule alert_record_fields [OF sample_tx_ok]) simp_all
  then show ?thesis
    by (simp add: sample_tx_ok) (simp add: sample_tx_def low weiToEth_one selectorOf_def)
qed

end
